theory Spec2Isabelle
  imports Complex_Main "HOL-Library.Log_Nat" "HOL-Library.Multiset" "HOL-Library.Sublist"
begin

section \<open>Python values used by the package\<close>

subsection \<open>Strings\<close>

text \<open>
  \<^verbatim>\<open>str.upper()\<close>. Characters are bytes here, so only the ASCII letters are mapped.
  The source compares the result with \<^verbatim>\<open>"JPEG"\<close> and \<^verbatim>\<open>"WEBP"\<close> only, and no
  character outside ASCII has one of the letters of these two words as its upper case, so
  the comparison is the same as with Python's Unicode strings.
\<close>

definition upper_char :: "char \<Rightarrow> char" where
  "upper_char c =
     (let n = (of_char c :: nat)
      in if 97 \<le> n \<and> n \<le> 122 then char_of (n - 32) else c)"

definition upper :: "string \<Rightarrow> string" where
  "upper s = map upper_char s"

text \<open>\<^verbatim>\<open>str(n)\<close> for an integer, as the f-strings of the error messages render it.\<close>

definition digit_char :: "nat \<Rightarrow> char" where
  "digit_char d = char_of (48 + d)"

function str_nat :: "nat \<Rightarrow> string" where
  "str_nat n = (if n < 10 then [digit_char n] else str_nat (n div 10) @ [digit_char (n mod 10)])"
  by pat_completeness auto
termination
  by (relation "measure (\<lambda>n. n)") auto

definition str_int :: "int \<Rightarrow> string" where
  "str_int i = (if i < 0 then CHR ''-'' # str_nat (nat (- i)) else str_nat (nat i))"

subsection \<open>Floats\<close>

text \<open>
  A Python float is an IEEE-754 binary64 number. The finite ones are rationals, and every
  arithmetic operation returns the exact result rounded to the nearest number with a
  53-bit significand, ties going to the even significand. \<open>round_double\<close> is that
  rounding for the normal range (\<open>2 powi (-1022) \<le> \<bar>x\<bar> < 2 powi 1024\<close>), where all
  values computed from image dimensions lie; overflow and subnormal numbers are not
  modelled.
\<close>

definition round_half_even :: "rat \<Rightarrow> int" where
  "round_half_even x =
     (let f = \<lfloor>x\<rfloor>; d = x - of_int f
      in if d < 1 / 2 then f
         else if 1 / 2 < d then f + 1
         else if even f then f else f + 1)"

text \<open>The binary exponent of a positive rational: \<open>2 powi binade x \<le> x < 2 powi (binade x + 1)\<close>.\<close>

definition binade :: "rat \<Rightarrow> int" where
  "binade x =
     (let (a, b) = quotient_of x; e = bitlen a - bitlen b
      in if 2 powi e \<le> x then e else e - 1)"

definition round_double :: "rat \<Rightarrow> rat" where
  "round_double x =
     (if x = 0 then 0
      else let e = binade \<bar>x\<bar> - 52
           in of_int (round_half_even (x / 2 powi e)) * 2 powi e)"

text \<open>\<^verbatim>\<open>float(n)\<close>, and the conversion of an \<^verbatim>\<open>int\<close> operand of a mixed operation.\<close>

definition py_float :: "int \<Rightarrow> rat" where
  "py_float n = round_double (of_int n)"

text \<open>\<^verbatim>\<open>a / b\<close> on floats: \<^verbatim>\<open>ZeroDivisionError\<close> for a zero divisor.\<close>

definition py_truediv :: "rat \<Rightarrow> rat \<Rightarrow> string + rat" where
  "py_truediv a b =
     (if b = 0 then Inl ''float division by zero'' else Inr (round_double (a / b)))"

definition py_mul :: "rat \<Rightarrow> rat \<Rightarrow> rat" where
  "py_mul a b = round_double (a * b)"

text \<open>\<^verbatim>\<open>int(x)\<close> on a float truncates toward zero.\<close>

definition py_int :: "rat \<Rightarrow> int" where
  "py_int x = (if 0 \<le> x then \<lfloor>x\<rfloor> else \<lceil>x\<rceil>)"

section \<open>The imaging library\<close>

text \<open>
  \<^verbatim>\<open>cdn/image_utils.py\<close> works on Pillow images. An image is its size, its colour mode,
  its \<^verbatim>\<open>info\<close> dictionary and its pixel data. The library's operations are not part of
  the package: they are a parameter of the model, a record of functions, each returning
  either the message of the exception it raises (\<open>Inl\<close>) or its result (\<open>Inr\<close>).
\<close>

type_synonym bytes = string

record image =
  width :: int
  height :: int
  mode :: string
  info :: "(string \<times> bytes) list"
  pixels :: bytes

datatype resample = NEAREST | BOX | BILINEAR | HAMMING | BICUBIC | LANCZOS

datatype kwarg = KInt int | KBool bool

record pil =
  pil_open :: "bytes \<Rightarrow> string + image"
  pil_exif_transpose :: "image \<Rightarrow> string + image"
  pil_convert :: "image \<Rightarrow> string \<Rightarrow> string + image"
  pil_resize :: "image \<Rightarrow> int \<times> int \<Rightarrow> resample \<Rightarrow> string + image"
  pil_new :: "string \<Rightarrow> int \<times> int \<Rightarrow> int \<times> int \<times> int \<Rightarrow> string + image"
  pil_split :: "image \<Rightarrow> string + image list"
  pil_paste :: "image \<Rightarrow> image \<Rightarrow> image \<Rightarrow> string + image"
  pil_save :: "image \<Rightarrow> string \<Rightarrow> (string \<times> kwarg) list \<Rightarrow> string + bytes"

section \<open>cdn/image\_utils.py\<close>

datatype error = ValueError string | IOError string

definition SUPPORTED_OUTPUTS :: "string set" where
  "SUPPORTED_OUTPUTS = {''WEBP'', ''JPEG''}"

text \<open>\<^verbatim>\<open>_choose_output_format(src_mode, want)\<close>, lines 20 to 28.\<close>

definition choose_output_format :: "string \<Rightarrow> string \<Rightarrow> string \<times> string" where
  "choose_output_format src_mode want =
     (let has_alpha = (src_mode \<in> set [''RGBA'', ''LA'', ''P''])
      in if upper want = ''JPEG'' \<and> has_alpha then (''WEBP'', ''.webp'')
         else if upper want \<notin> SUPPORTED_OUTPUTS then (''WEBP'', ''.webp'')
         else if upper want = ''JPEG'' then (''JPEG'', ''.jpg'')
         else (''WEBP'', ''.webp''))"

text \<open>Lines 40 to 44: the checks of \<^verbatim>\<open>quality\<close> and \<^verbatim>\<open>max_width\<close>, in this order.\<close>

definition validate :: "int option \<Rightarrow> int \<Rightarrow> error option" where
  "validate max_width quality =
     (if quality < 1 \<or> quality > 100
      then Some (ValueError (''Quality must be between 1 and 100, got '' @ str_int quality))
      else case max_width of
             None \<Rightarrow> None
           | Some m \<Rightarrow>
               if m < 1
               then Some (ValueError (''max_width must be positive, got '' @ str_int m))
               else None)"

text \<open>Lines 60 and 61: a palette image is converted to RGBA.\<close>

definition palette_stage :: "pil \<Rightarrow> image \<Rightarrow> string + image" where
  "palette_stage L img = (if mode img = ''P'' then pil_convert L img ''RGBA'' else Inr img)"

text \<open>
  Lines 65 and 66: \<^verbatim>\<open>ratio = max_width / float(img.width)\<close> and
  \<^verbatim>\<open>new_size = (max_width, int(img.height * ratio))\<close>.
\<close>

definition new_size :: "int \<Rightarrow> image \<Rightarrow> string + (int \<times> int)" where
  "new_size max_width img =
     (case py_truediv (py_float max_width) (py_float (width img)) of
        Inl e \<Rightarrow> Inl e
      | Inr ratio \<Rightarrow> Inr (max_width, py_int (py_mul (py_float (height img)) ratio)))"

text \<open>
  Lines 64 to 68. \<^verbatim>\<open>if max_width and ...\<close>: \<^verbatim>\<open>None\<close> and \<^verbatim>\<open>0\<close> are false.
\<close>

definition resize_stage :: "pil \<Rightarrow> int option \<Rightarrow> image \<Rightarrow> string + image" where
  "resize_stage L max_width img =
     (case max_width of
        None \<Rightarrow> Inr img
      | Some m \<Rightarrow>
          if m \<noteq> 0 \<and> width img > m
          then (case new_size m img of
                  Inl e \<Rightarrow> Inl e
                | Inr sz \<Rightarrow> pil_resize L img sz LANCZOS)
          else Inr img)"

text \<open>
  Lines 74 to 80. \<^verbatim>\<open>img.split()[-1]\<close> is the last band; on an empty tuple the index
  raises.
\<close>

definition alpha_stage :: "pil \<Rightarrow> string \<Rightarrow> image \<Rightarrow> string + image" where
  "alpha_stage L fmt img =
     (if fmt = ''JPEG'' \<and> mode img \<in> set [''RGBA'', ''LA'']
      then (case pil_new L ''RGB'' (width img, height img) (255, 255, 255) of
              Inl e \<Rightarrow> Inl e
            | Inr bg \<Rightarrow>
                (case pil_split L img of
                   Inl e \<Rightarrow> Inl e
                 | Inr bands \<Rightarrow>
                     if bands = [] then Inl ''tuple index out of range''
                     else pil_paste L bg img (last bands)))
      else if fmt = ''JPEG'' \<and> mode img \<noteq> ''RGB'' then pil_convert L img ''RGB''
      else Inr img)"

text \<open>Lines 84 to 89: the options given to the encoder.\<close>

definition save_kwargs :: "string \<Rightarrow> int \<Rightarrow> (string \<times> kwarg) list" where
  "save_kwargs fmt quality =
     (if fmt = ''WEBP''
      then [(''quality'', KInt quality), (''method'', KInt 6), (''optimize'', KBool True)]
      else if fmt = ''JPEG''
      then [(''quality'', KInt quality), (''optimize'', KBool True), (''progressive'', KBool True)]
      else [])"

text \<open>Lines 92 to 94: \<^verbatim>\<open>img.info.pop(key, None)\<close> for the two metadata keys.\<close>

definition pop :: "string \<Rightarrow> (string \<times> bytes) list \<Rightarrow> (string \<times> bytes) list" where
  "pop key d = filter (\<lambda>kv. fst kv \<noteq> key) d"

definition strip_stage :: "bool \<Rightarrow> image \<Rightarrow> image" where
  "strip_stage strip_metadata img =
     (if strip_metadata then img\<lparr>info := pop ''icc_profile'' (pop ''exif'' (info img))\<rparr>
      else img)"

text \<open>
  Lines 57 to 94: everything between opening the image and \<^verbatim>\<open>img.save\<close>. The result is
  the buffer handed to the encoder, with the chosen format and extension.
\<close>

definition prepare ::
  "pil \<Rightarrow> int option \<Rightarrow> string \<Rightarrow> bool \<Rightarrow> image \<Rightarrow> string + (image \<times> string \<times> string)" where
  "prepare L max_width output_format strip_metadata img0 =
     (case pil_exif_transpose L img0 of
        Inl e \<Rightarrow> Inl e
      | Inr img1 \<Rightarrow>
     (case palette_stage L img1 of
        Inl e \<Rightarrow> Inl e
      | Inr img2 \<Rightarrow>
     (case resize_stage L max_width img2 of
        Inl e \<Rightarrow> Inl e
      | Inr img3 \<Rightarrow>
     (case choose_output_format (mode img3) output_format of
        (fmt, ext) \<Rightarrow>
     (case alpha_stage L fmt img3 of
        Inl e \<Rightarrow> Inl e
      | Inr img4 \<Rightarrow> Inr (strip_stage strip_metadata img4, fmt, ext))))))"

text \<open>
  Lines 56 to 114, the second \<^verbatim>\<open>try\<close> block: prepare, save, name the content type.
  Lines 100 to 107 compute a compression ratio for the log message only and are left out.
\<close>

definition encode ::
  "pil \<Rightarrow> int option \<Rightarrow> int \<Rightarrow> string \<Rightarrow> bool \<Rightarrow> image \<Rightarrow> string + (bytes \<times> string \<times> string)" where
  "encode L max_width quality output_format strip_metadata img0 =
     (case prepare L max_width output_format strip_metadata img0 of
        Inl e \<Rightarrow> Inl e
      | Inr (img, fmt, ext) \<Rightarrow>
          (case pil_save L img fmt (save_kwargs fmt quality) of
             Inl e \<Rightarrow> Inl e
           | Inr data \<Rightarrow>
               Inr (data, if fmt = ''WEBP'' then ''image/webp'' else ''image/jpeg'', ext)))"

text \<open>
  \<^verbatim>\<open>compress_image(file_obj, *, max_width, quality, output_format, strip_metadata)\<close>.
  The result is \<^verbatim>\<open>(data, content_type, ext)\<close>.
\<close>

definition compress_image ::
  "pil \<Rightarrow> bytes \<Rightarrow> int option \<Rightarrow> int \<Rightarrow> string \<Rightarrow> bool \<Rightarrow> error + (bytes \<times> string \<times> string)" where
  "compress_image L file_obj max_width quality output_format strip_metadata =
     (case validate max_width quality of
        Some err \<Rightarrow> Inl err
      | None \<Rightarrow>
          (case pil_open L file_obj of
             Inl e \<Rightarrow> Inl (IOError (''Cannot open image file: '' @ e))
           | Inr img \<Rightarrow>
               (case encode L max_width quality output_format strip_metadata img of
                  Inl e \<Rightarrow> Inl (IOError (''Image compression failed: '' @ e))
                | Inr r \<Rightarrow> Inr r)))"

section \<open>cdn/bunny.py: purge\_cache\<close>

text \<open>
  The two settings \<^verbatim>\<open>purge_cache\<close> reads, both taken to be defined. A setting that is
  \<^verbatim>\<open>None\<close> or the empty string is false in Python.
\<close>

record settings =
  BUNNY_PULL_ZONE_ID :: "string option"
  BUNNY_API_KEY :: "string option"

definition falsy :: "string option \<Rightarrow> bool" where
  "falsy v = (case v of None \<Rightarrow> True | Some s \<Rightarrow> s = [])"

definition setting_str :: "string option \<Rightarrow> string" where
  "setting_str v = (case v of None \<Rightarrow> ''None'' | Some s \<Rightarrow> s)"

text \<open>
  What \<^verbatim>\<open>requests.post\<close> does: it returns a response with a status code, or raises
  \<^verbatim>\<open>RequestException\<close>, or raises something else. The network is a state \<open>'w\<close> that
  every request may change; \<open>post w api key url\<close> is the request made in state \<open>w\<close>.
\<close>

datatype outcome = Response nat | RequestException string | OtherException string

type_synonym 'w http_post = "'w \<Rightarrow> string \<Rightarrow> string \<Rightarrow> string \<Rightarrow> outcome \<times> 'w"

record purge_result =
  success :: "string list"
  failed :: "string list"

text \<open>
  Lines 132 to 146, the loop, with the two lists it appends to.
  \<^verbatim>\<open>resp.raise_for_status()\<close> raises \<^verbatim>\<open>HTTPError\<close>, a \<^verbatim>\<open>RequestException\<close>, for a status
  from 400 to 599.
\<close>

fun purge_loop ::
  "'w http_post \<Rightarrow> string \<Rightarrow> string \<Rightarrow> 'w \<Rightarrow> string list \<Rightarrow> string list \<Rightarrow> string list
     \<Rightarrow> purge_result \<times> 'w" where
  "purge_loop post api key w [] succ fail = (\<lparr>success = succ, failed = fail\<rparr>, w)"
| "purge_loop post api key w (url # urls) succ fail =
     (if url = [] then purge_loop post api key w urls succ fail
      else (case post w api key url of
              (Response status, w') \<Rightarrow>
                if 400 \<le> status \<and> status < 600
                then purge_loop post api key w' urls succ (fail @ [url])
                else purge_loop post api key w' urls (succ @ [url]) fail
            | (RequestException e, w') \<Rightarrow> purge_loop post api key w' urls succ (fail @ [url])
            | (OtherException e, w') \<Rightarrow> purge_loop post api key w' urls succ (fail @ [url])))"

text \<open>\<^verbatim>\<open>purge_cache(urls)\<close>, lines 112 to 148.\<close>

definition purge_api :: "settings \<Rightarrow> string" where
  "purge_api cfg =
     ''https://api.bunny.net/pullzone/'' @ setting_str (BUNNY_PULL_ZONE_ID cfg) @ ''/purgeCache''"

definition purge_cache ::
  "settings \<Rightarrow> 'w http_post \<Rightarrow> 'w \<Rightarrow> string list \<Rightarrow> purge_result \<times> 'w" where
  "purge_cache cfg post w urls =
     (if urls = [] then (\<lparr>success = [], failed = []\<rparr>, w)
      else if falsy (BUNNY_PULL_ZONE_ID cfg) then (\<lparr>success = [], failed = urls\<rparr>, w)
      else if falsy (BUNNY_API_KEY cfg) then (\<lparr>success = [], failed = urls\<rparr>, w)
      else purge_loop post (purge_api cfg) (setting_str (BUNNY_API_KEY cfg)) w urls [] [])"

text \<open>
  The interface's words, for comparison with the loop: every URL that is not empty gets
  one request of its own, in order, and its own verdict.
\<close>

definition request_ok :: "outcome \<Rightarrow> bool" where
  "request_ok r = (case r of Response status \<Rightarrow> \<not> (400 \<le> status \<and> status < 600) | _ \<Rightarrow> False)"

fun purge_verdicts ::
  "'w http_post \<Rightarrow> string \<Rightarrow> string \<Rightarrow> 'w \<Rightarrow> string list \<Rightarrow> (string \<times> bool) list" where
  "purge_verdicts post api key w [] = []"
| "purge_verdicts post api key w (url # urls) =
     (if url = [] then purge_verdicts post api key w urls
      else (url, request_ok (fst (post w api key url)))
             # purge_verdicts post api key (snd (post w api key url)) urls)"

section \<open>Contracts of the imaging library\<close>

text \<open>
  What the theorems below assume of Pillow, each operation on its own: a conversion
  returns an image of the requested mode and of the same size; a resize returns an image
  of the requested size and of the same mode; the orientation transform keeps the mode;
  a new image has the requested mode and size; pasting keeps the mode and size of the
  image pasted into.
\<close>

definition convert_contract :: "pil \<Rightarrow> bool" where
  "convert_contract L \<longleftrightarrow>
     (\<forall>img m img'. pil_convert L img m = Inr img' \<longrightarrow>
        mode img' = m \<and> width img' = width img \<and> height img' = height img)"

definition resize_contract :: "pil \<Rightarrow> bool" where
  "resize_contract L \<longleftrightarrow>
     (\<forall>img sz f img'. pil_resize L img sz f = Inr img' \<longrightarrow>
        mode img' = mode img \<and> width img' = fst sz \<and> height img' = snd sz)"

definition transpose_contract :: "pil \<Rightarrow> bool" where
  "transpose_contract L \<longleftrightarrow>
     (\<forall>img img'. pil_exif_transpose L img = Inr img' \<longrightarrow> mode img' = mode img)"

definition new_contract :: "pil \<Rightarrow> bool" where
  "new_contract L \<longleftrightarrow>
     (\<forall>m sz c img'. pil_new L m sz c = Inr img' \<longrightarrow>
        mode img' = m \<and> width img' = fst sz \<and> height img' = snd sz)"

definition paste_contract :: "pil \<Rightarrow> bool" where
  "paste_contract L \<longleftrightarrow>
     (\<forall>bg img mask bg'. pil_paste L bg img mask = Inr bg' \<longrightarrow>
        mode bg' = mode bg \<and> width bg' = width bg \<and> height bg' = height bg)"

subsection \<open>A small instance of the library\<close>

text \<open>
  An instance of the interface that satisfies the contracts, for evaluating the model on
  concrete inputs. Its container format is three header bytes, a mode letter (\<open>C\<close> for
  RGB, \<open>A\<close> for RGBA, \<open>L\<close> for LA, \<open>P\<close> for a palette), the width and the height, followed
  by the pixel data; anything else cannot be opened. It resizes to any size with positive
  sides and keeps the pixel data as it is.
\<close>

definition mini_open :: "bytes \<Rightarrow> string + image" where
  "mini_open f =
     (case f of
        c # w # h # px \<Rightarrow>
          (if c = CHR ''C'' \<or> c = CHR ''A'' \<or> c = CHR ''L'' \<or> c = CHR ''P''
           then Inr \<lparr>width = int (of_char w), height = int (of_char h),
                     mode = (if c = CHR ''C'' then ''RGB'' else if c = CHR ''A'' then ''RGBA''
                             else if c = CHR ''L'' then ''LA'' else ''P''),
                     info = [], pixels = px\<rparr>
           else Inl ''cannot identify image file'')
      | _ \<Rightarrow> Inl ''cannot identify image file'')"

definition mini_pil :: pil where
  "mini_pil =
     \<lparr>pil_open = mini_open,
      pil_exif_transpose = (\<lambda>img. Inr img),
      pil_convert = (\<lambda>img m. Inr (img\<lparr>mode := m\<rparr>)),
      pil_resize = (\<lambda>img sz f.
         if fst sz < 1 \<or> snd sz < 1 then Inl ''height and width must be > 0''
         else Inr (img\<lparr>width := fst sz, height := snd sz\<rparr>)),
      pil_new = (\<lambda>m sz c. Inr \<lparr>width = fst sz, height = snd sz, mode = m, info = [], pixels = []\<rparr>),
      pil_split = (\<lambda>img. Inr (map (\<lambda>c. img\<lparr>mode := ''L''\<rparr>) (mode img))),
      pil_paste = (\<lambda>bg img mask. Inr bg),
      pil_save = (\<lambda>img fmt kw. Inr (fmt @ pixels img))\<rparr>"

subsection \<open>Concrete inputs\<close>

text \<open>Files in the container format of \<open>mini_pil\<close>, and the images they decode to.\<close>

definition rgba_file :: bytes where
  "rgba_file = [CHR ''A'', char_of (4::nat), char_of (5::nat), CHR ''x'']"

definition rgb_file :: bytes where
  "rgb_file = [CHR ''C'', char_of (4::nat), char_of (5::nat), CHR ''x'']"

definition rgb_4x5 :: image where
  "rgb_4x5 = \<lparr>width = 4, height = 5, mode = ''RGB'', info = [], pixels = ''x''\<rparr>"

definition rgba_4x5 :: image where
  "rgba_4x5 = \<lparr>width = 4, height = 5, mode = ''RGBA'', info = [], pixels = ''x''\<rparr>"

text \<open>
  A network for \<open>purge_cache\<close>: the state counts the requests made; the URL \<open>a\<close> is
  purged, \<open>b\<close> is answered with status 404, and any other request times out.
\<close>

definition demo_post :: "nat http_post" where
  "demo_post w api key url =
     (if url = ''a'' then Response 200
      else if url = ''b'' then Response 404
      else RequestException ''timed out'', Suc w)"

definition demo_settings :: settings where
  "demo_settings = \<lparr>BUNNY_PULL_ZONE_ID = Some ''12345'', BUNNY_API_KEY = Some ''secret''\<rparr>"

section \<open>Rounding to a double\<close>

lemma round_half_even_error: "\<bar>of_int (round_half_even y) - y\<bar> \<le> 1 / 2"
proof -
  have "of_int \<lfloor>y\<rfloor> \<le> y" and "y < of_int \<lfloor>y\<rfloor> + 1"
    by linarith+
  then show ?thesis
    by (auto simp: round_half_even_def Let_def)
qed

lemma round_half_even_of_int: "round_half_even (of_int k) = k"
  by (simp add: round_half_even_def)

lemma bitlen_pos: "0 < a \<Longrightarrow> 1 \<le> bitlen a"
  using bitlen_eq_zero_iff [of a] bitlen_nonneg [of a] by linarith

lemma binade_bounds:
  assumes "0 < x"
  shows "2 powi (binade x) \<le> x \<and> x < 2 powi (binade x + 1)"
proof -
  obtain a b where q: "quotient_of x = (a, b)"
    by (cases "quotient_of x")
  have b: "0 < b"
    using quotient_of_denom_pos [OF q] .
  have x: "x = of_int a / of_int b"
    using quotient_of_div [OF q] .
  have a: "0 < a"
    using assms b x by (simp add: zero_less_divide_iff)
  define p where "p = bitlen a"
  define r where "r = bitlen b"
  have p1: "1 \<le> p" and r1: "1 \<le> r"
    using bitlen_pos a b by (simp_all add: p_def r_def)
  have "2 ^ nat (p - 1) \<le> a" and "a < 2 ^ nat p"
    using bitlen_bounds [OF a] by (simp_all add: p_def)
  then have "(of_int (2 ^ nat (p - 1)) :: rat) \<le> of_int a" and "(of_int a :: rat) < of_int (2 ^ nat p)"
    by (simp_all only: of_int_le_iff of_int_less_iff)
  then have pa: "(2::rat) powi (p - 1) \<le> of_int a" "(of_int a :: rat) < 2 powi p"
    using p1 by (simp_all add: power_int_def)
  have "2 ^ nat (r - 1) \<le> b" and "b < 2 ^ nat r"
    using bitlen_bounds [OF b] by (simp_all add: r_def)
  then have "(of_int (2 ^ nat (r - 1)) :: rat) \<le> of_int b" and "(of_int b :: rat) < of_int (2 ^ nat r)"
    by (simp_all only: of_int_le_iff of_int_less_iff)
  then have rb: "(2::rat) powi (r - 1) \<le> of_int b" "(of_int b :: rat) < 2 powi r"
    using r1 by (simp_all add: power_int_def)
  have bpos: "(0::rat) < of_int b"
    using b by simp
  have up: "x < 2 powi (p - r + 1)"
  proof -
    have "of_int a < (2::rat) powi p" by (rule pa)
    also have "\<dots> = 2 powi (p - r + 1) * 2 powi (r - 1)"
      by (simp add: power_int_add [symmetric])
    also have "\<dots> \<le> 2 powi (p - r + 1) * of_int b"
      using rb(1) by (simp add: mult_left_mono)
    finally show ?thesis
      using bpos by (simp add: x pos_divide_less_eq)
  qed
  have lo: "2 powi (p - r - 1) < x"
  proof -
    have "2 powi (p - r - 1) * of_int b < (2::rat) powi (p - r - 1) * 2 powi r"
      using rb(2) by (simp add: mult_strict_left_mono)
    also have "\<dots> = 2 powi (p - 1)"
      by (simp add: power_int_add [symmetric])
    also have "\<dots> \<le> of_int a" by (rule pa)
    finally show ?thesis
      using bpos by (simp add: x pos_less_divide_eq)
  qed
  show ?thesis
  proof (cases "2 powi (p - r) \<le> x")
    case True
    then have "binade x = p - r"
      by (simp add: binade_def q p_def r_def)
    then show ?thesis using True up by simp
  next
    case False
    then have "binade x = p - r - 1"
      by (simp add: binade_def q p_def r_def)
    then show ?thesis using False lo by simp
  qed
qed

lemma round_double_error:
  assumes "0 < x"
  shows "\<bar>round_double x - x\<bar> \<le> x / 2 ^ 53"
proof -
  define e where "e = binade x - 52"
  define s :: rat where "s = 2 powi e"
  have s: "0 < s" by (simp add: s_def)
  have rd: "round_double x = of_int (round_half_even (x / s)) * s"
    using assms by (simp add: round_double_def e_def s_def Let_def)
  have "\<bar>of_int (round_half_even (x / s)) - x / s\<bar> * s \<le> 1 / 2 * s"
    using round_half_even_error [of "x / s"] s by (simp add: mult_right_mono)
  moreover have "\<bar>of_int (round_half_even (x / s)) - x / s\<bar> * s = \<bar>round_double x - x\<bar>"
  proof -
    have "\<bar>of_int (round_half_even (x / s)) - x / s\<bar> * s = \<bar>(of_int (round_half_even (x / s)) - x / s) * s\<bar>"
      using s by (simp add: abs_mult)
    also have "(of_int (round_half_even (x / s)) - x / s) * s = round_double x - x"
      using s by (simp add: rd left_diff_distrib)
    finally show ?thesis .
  qed
  ultimately have half: "\<bar>round_double x - x\<bar> \<le> s / 2" by simp
  have "s * 2 ^ 52 = 2 powi (binade x)"
  proof -
    have "s * 2 ^ 52 = 2 powi e * 2 powi 52" by (simp add: s_def)
    also have "\<dots> = 2 powi (e + 52)" by (simp add: power_int_add)
    finally show ?thesis by (simp add: e_def)
  qed
  then have "s * 2 ^ 52 \<le> x"
    using binade_bounds [OF assms] by simp
  then have "s / 2 \<le> x / 2 ^ 53"
    by (simp add: field_simps)
  then show ?thesis using half by linarith
qed

lemma round_double_of_int:
  assumes "0 \<le> n" and "n < 2 ^ 53"
  shows "round_double (of_int n) = of_int n"
proof (cases "n = 0")
  case True
  then show ?thesis by (simp add: round_double_def)
next
  case False
  then have n: "0 < n" using assms by simp
  define x :: rat where "x = of_int n"
  have x: "0 < x" using n by (simp add: x_def)
  define e where "e = binade x - 52"
  have "2 powi (binade x) \<le> x" using binade_bounds [OF x] by simp
  also have "x < 2 powi 53"
    using assms(2) unfolding x_def
    by (metis of_int_less_iff of_int_numeral of_int_power power_int_numeral)
  finally have "(2::rat) powi (binade x) < 2 powi 53" .
  then have "binade x < 53"
    by (rule power_int_le_imp_less_exp [rotated]) simp_all
  then have e: "e \<le> 0" by (simp add: e_def)
  define k where "k = n * 2 ^ nat (- e)"
  have "x / 2 powi e = x * 2 powi (- e)"
    by (simp add: power_int_minus field_simps)
  also have "\<dots> = of_int k"
    using e by (simp add: k_def x_def power_int_def)
  finally have xk: "x / 2 powi e = of_int k" .
  have "round_double x = of_int (round_half_even (x / 2 powi e)) * 2 powi e"
    using x by (simp add: round_double_def e_def Let_def)
  also have "\<dots> = x / 2 powi e * 2 powi e"
    by (simp only: xk round_half_even_of_int)
  also have "\<dots> = x" by simp
  finally show ?thesis by (simp add: x_def)
qed

lemma floor_near_quotient:
  fixes xh :: rat and N W :: int
  assumes W: "0 < W" and near: "\<bar>of_int W * xh - of_int N\<bar> < 1"
  shows "\<lfloor>xh\<rfloor> = N div W \<or> (W dvd N \<and> \<lfloor>xh\<rfloor> = N div W - 1)"
proof -
  define k where "k = N div W"
  define r where "r = N mod W"
  have N: "N = k * W + r" by (simp add: k_def r_def)
  have r: "0 \<le> r" "r < W" using W by (simp_all add: r_def)
  have Wr: "(0::rat) < of_int W" using W by simp
  have lo: "of_int N - 1 < of_int W * xh" and hi: "of_int W * xh < of_int N + 1"
    using near by linarith+
  have up: "xh < of_int (k + 1)"
  proof -
    have "N + 1 \<le> (k + 1) * W" using r N by (simp add: algebra_simps)
    then have "(of_int (N + 1) :: rat) \<le> of_int ((k + 1) * W)"
      by (simp only: of_int_le_iff)
    then have "of_int W * xh < of_int W * of_int (k + 1)"
      using hi by (simp add: mult.commute)
    then show ?thesis using Wr by (simp only: mult_less_cancel_left_pos)
  qed
  show ?thesis
  proof (cases "r = 0")
    case True
    have "(k - 1) * W \<le> N - 1" using True N W by (simp add: algebra_simps)
    then have "(of_int ((k - 1) * W) :: rat) \<le> of_int (N - 1)"
      by (simp only: of_int_le_iff)
    then have "of_int W * of_int (k - 1) < of_int W * xh"
      using lo by (simp add: mult.commute)
    then have "of_int (k - 1) < xh" using Wr by (simp only: mult_less_cancel_left_pos)
    then have "k - 1 \<le> \<lfloor>xh\<rfloor>" by (simp add: le_floor_iff)
    moreover have "\<lfloor>xh\<rfloor> < k + 1" using up by (simp only: floor_less_iff)
    moreover have "W dvd N" using True by (simp add: r_def dvd_eq_mod_eq_0)
    ultimately show ?thesis unfolding k_def [symmetric] by auto
  next
    case False
    then have "k * W \<le> N - 1" using r N by simp
    then have "(of_int (k * W) :: rat) \<le> of_int (N - 1)"
      by (simp only: of_int_le_iff)
    then have "of_int W * of_int k < of_int W * xh"
      using lo by (simp add: mult.commute)
    then have "of_int k < xh" using Wr by (simp only: mult_less_cancel_left_pos)
    then have "\<lfloor>xh\<rfloor> = k" using up by (simp add: floor_eq_iff)
    then show ?thesis by (simp add: k_def)
  qed
qed

lemma new_size_value:
  assumes m: "1 \<le> m" "m < width img" and W: "width img < 2 ^ 53"
    and h: "0 \<le> height img" and hm: "height img * m < 2 ^ 51"
  shows "\<exists>k. new_size m img = Inr (m, k) \<and>
           (k = (height img * m) div width img \<or>
            (width img dvd height img * m \<and> k = (height img * m) div width img - 1))"
proof -
  define Wi where "Wi = width img"
  define H where "H = height img"
  have Wpos: "0 < Wi" using m by (simp add: Wi_def)
  have fm: "py_float m = of_int m"
    unfolding py_float_def using m W by (intro round_double_of_int) simp_all
  have fW: "py_float Wi = of_int Wi"
    unfolding py_float_def using m W by (intro round_double_of_int) (simp_all add: Wi_def)
  have Hm: "H \<le> H * m" using h m by (simp add: H_def mult_le_cancel_left1)
  have fH: "py_float H = of_int H"
    unfolding py_float_def using h hm Hm by (intro round_double_of_int) (simp_all add: H_def)
  define q :: rat where "q = of_int m / of_int Wi"
  define r where "r = round_double q"
  have q: "0 < q" using m Wpos by (simp add: q_def)
  have rq: "\<bar>r - q\<bar> \<le> q / 2 ^ 53"
    unfolding r_def by (rule round_double_error [OF q])
  have rpos: "0 < r"
  proof -
    have "q / 2 ^ 53 < q" using q by simp
    then show ?thesis using rq by linarith
  qed
  define xh where "xh = round_double (of_int H * r)"
  have ns: "new_size m img = Inr (m, py_int xh)"
    using Wpos
    by (simp add: new_size_def py_truediv_def py_mul_def fm fW [unfolded Wi_def] fH [unfolded H_def]
        xh_def r_def q_def Wi_def H_def)
  show ?thesis
  proof (cases "H = 0")
    case True
    then have "xh = 0" by (simp add: xh_def round_double_def)
    then have "py_int xh = (H * m) div Wi" using True by (simp add: py_int_def)
    then show ?thesis using ns by (simp add: H_def Wi_def)
  next
    case False
    then have Hpos: "0 < H" using h by (simp add: H_def)
    define p :: rat where "p = of_int H * r"
    define x :: rat where "x = of_int H * q"
    have ppos: "0 < p" using Hpos rpos by (simp add: p_def)
    have xpos: "0 < x" using Hpos q by (simp add: x_def)
    have e1: "\<bar>xh - p\<bar> \<le> p / 2 ^ 53"
      unfolding xh_def p_def [symmetric] by (rule round_double_error [OF ppos])
    have e2: "\<bar>p - x\<bar> \<le> x / 2 ^ 53"
    proof -
      have "\<bar>p - x\<bar> = of_int H * \<bar>r - q\<bar>"
        using Hpos by (simp add: p_def x_def right_diff_distrib [symmetric] abs_mult)
      also have "\<dots> \<le> of_int H * (q / 2 ^ 53)"
        using rq Hpos by (simp add: mult_left_mono)
      finally show ?thesis by (simp add: x_def)
    qed
    have "p \<le> 2 * x"
    proof -
      have "x / 2 ^ 53 \<le> x" using xpos by simp
      then show ?thesis using e2 by linarith
    qed
    then have "p / 2 ^ 53 \<le> x / 2 ^ 52" by (simp add: field_simps)
    then have e3: "\<bar>xh - x\<bar> \<le> x / 2 ^ 52 + x / 2 ^ 53"
      using e1 e2 by linarith
    have xhpos: "0 \<le> xh"
    proof -
      have "p / 2 ^ 53 \<le> p" using ppos by simp
      then show ?thesis using e1 ppos by linarith
    qed
    have xN: "of_int Wi * x = of_int (H * m)"
      using Wpos by (simp add: x_def q_def)
    have "of_int Wi * x < 2 ^ 51"
    proof -
      have "(of_int (H * m) :: rat) < of_int (2 ^ 51)"
        using hm unfolding H_def by (simp only: of_int_less_iff)
      then show ?thesis by (simp add: xN)
    qed
    then have small: "of_int Wi * (x / 2 ^ 52 + x / 2 ^ 53) < 1"
      by (simp add: field_simps)
    have "of_int Wi * xh - of_int (H * m) = of_int Wi * (xh - x)"
      by (simp only: xN [symmetric] right_diff_distrib)
    then have "\<bar>of_int Wi * xh - of_int (H * m)\<bar> = of_int Wi * \<bar>xh - x\<bar>"
      using Wpos by (simp add: abs_mult)
    also have "\<dots> \<le> of_int Wi * (x / 2 ^ 52 + x / 2 ^ 53)"
      using e3 Wpos by (simp add: mult_left_mono)
    also have "\<dots> < 1" by (rule small)
    finally have near: "\<bar>of_int Wi * xh - of_int (H * m)\<bar> < 1" .
    have "py_int xh = \<lfloor>xh\<rfloor>" using xhpos by (simp add: py_int_def)
    then show ?thesis
      using floor_near_quotient [OF Wpos near] ns by (simp add: H_def Wi_def)
  qed
qed

section \<open>Facts about the stages\<close>

lemma upper_JPEG: "upper ''JPEG'' = ''JPEG''"
  by code_simp

lemma compress_image_Inr:
  "compress_image L f mw q want s = Inr (data, ct, ext) \<longleftrightarrow>
     validate mw q = None \<and>
     (\<exists>img0 img fmt. pil_open L f = Inr img0 \<and>
        prepare L mw want s img0 = Inr (img, fmt, ext) \<and>
        pil_save L img fmt (save_kwargs fmt q) = Inr data \<and>
        ct = (if fmt = ''WEBP'' then ''image/webp'' else ''image/jpeg''))"
  by (auto simp: compress_image_def encode_def split: option.splits sum.splits prod.splits)

lemma prepare_Inr:
  "prepare L mw want s img0 = Inr (img, fmt, ext) \<longleftrightarrow>
     (\<exists>img1 img2 img3 img4. pil_exif_transpose L img0 = Inr img1 \<and>
        palette_stage L img1 = Inr img2 \<and>
        resize_stage L mw img2 = Inr img3 \<and>
        choose_output_format (mode img3) want = (fmt, ext) \<and>
        alpha_stage L fmt img3 = Inr img4 \<and>
        img = strip_stage s img4)"
  by (auto simp: prepare_def split: sum.splits prod.splits)

lemma choose_output_format_cases:
  "choose_output_format m w = (''WEBP'', ''.webp'') \<or>
   choose_output_format m w = (''JPEG'', ''.jpg'')"
  by (simp add: choose_output_format_def)

lemma choose_output_format_JPEG:
  "choose_output_format m w = (''JPEG'', ext) \<Longrightarrow>
     m \<noteq> ''RGBA'' \<and> m \<noteq> ''LA'' \<and> m \<noteq> ''P'' \<and> upper w = ''JPEG'' \<and> ext = ''.jpg''"
  by (auto simp: choose_output_format_def split: if_splits)

lemma palette_stage_mode:
  "convert_contract L \<Longrightarrow> palette_stage L img = Inr img' \<Longrightarrow>
     mode img' = (if mode img = ''P'' then ''RGBA'' else mode img)"
  by (auto simp: palette_stage_def convert_contract_def split: if_splits)

lemma palette_stage_size:
  "convert_contract L \<Longrightarrow> palette_stage L img = Inr img' \<Longrightarrow>
     width img' = width img \<and> height img' = height img"
  by (auto simp: palette_stage_def convert_contract_def split: if_splits)

lemma resize_stage_mode:
  "resize_contract L \<Longrightarrow> resize_stage L mw img = Inr img' \<Longrightarrow> mode img' = mode img"
  by (auto simp: resize_stage_def resize_contract_def split: option.splits if_splits sum.splits)

lemma strip_stage_same [simp]:
  "mode (strip_stage s img) = mode img"
  "width (strip_stage s img) = width img"
  "height (strip_stage s img) = height img"
  by (simp_all add: strip_stage_def)

lemma alpha_stage_chosen:
  "choose_output_format (mode img) want = (fmt, ext) \<Longrightarrow>
     alpha_stage L fmt img =
       (if fmt = ''JPEG'' \<and> mode img \<noteq> ''RGB'' then pil_convert L img ''RGB'' else Inr img)"
  by (auto simp: alpha_stage_def dest: choose_output_format_JPEG)

lemma alpha_stage_chosen_size:
  "convert_contract L \<Longrightarrow> choose_output_format (mode img) want = (fmt, ext) \<Longrightarrow>
     alpha_stage L fmt img = Inr img' \<Longrightarrow> width img' = width img \<and> height img' = height img"
  by (auto simp: alpha_stage_chosen convert_contract_def split: if_splits)

lemma mini_pil_contracts:
  "convert_contract mini_pil" "resize_contract mini_pil" "transpose_contract mini_pil"
  "new_contract mini_pil" "paste_contract mini_pil"
  by (auto simp: convert_contract_def resize_contract_def transpose_contract_def
      new_contract_def paste_contract_def mini_pil_def split: if_splits)

section \<open>Bounds on the requested size\<close>

lemma new_size_le:
  assumes m: "1 \<le> m" "m < width img" and W: "width img \<le> 2 ^ 51"
    and h: "0 \<le> height img" "height img < 2 ^ 53"
  shows "\<exists>k. new_size m img = Inr (m, k) \<and> 0 \<le> k \<and> k \<le> height img"
proof -
  define Wi where "Wi = width img"
  define H where "H = height img"
  define u :: rat where "u = 1 / 2 ^ 53"
  have Wpos: "0 < Wi" using m by (simp add: Wi_def)
  have fm: "py_float m = of_int m"
    unfolding py_float_def using m W by (intro round_double_of_int) simp_all
  have fW: "py_float Wi = of_int Wi"
    unfolding py_float_def using m W by (intro round_double_of_int) (simp_all add: Wi_def)
  have fH: "py_float H = of_int H"
    unfolding py_float_def using h by (intro round_double_of_int) (simp_all add: H_def)
  define q :: rat where "q = of_int m / of_int Wi"
  define r where "r = round_double q"
  have q: "0 < q" using m Wpos by (simp add: q_def)
  have rq: "\<bar>r - q\<bar> \<le> q * u"
    unfolding r_def u_def using round_double_error [OF q] by simp
  have rpos: "0 < r"
  proof -
    have "q * u < q" using q by (simp add: u_def)
    then show ?thesis using rq by linarith
  qed
  define xh where "xh = round_double (of_int H * r)"
  have ns: "new_size m img = Inr (m, py_int xh)"
    using Wpos
    by (simp add: new_size_def py_truediv_def py_mul_def fm fW [unfolded Wi_def] fH [unfolded H_def]
        xh_def r_def q_def Wi_def H_def)
  show ?thesis
  proof (cases "H = 0")
    case True
    then have "xh = 0" by (simp add: xh_def round_double_def)
    then have "py_int xh = 0" by (simp add: py_int_def)
    then show ?thesis using ns h by simp
  next
    case False
    then have Hpos: "0 < H" using h by (simp add: H_def)
    define p :: rat where "p = of_int H * r"
    have ppos: "0 < p" using Hpos rpos by (simp add: p_def)
    have e1: "\<bar>xh - p\<bar> \<le> p * u"
      unfolding xh_def p_def [symmetric] u_def using round_double_error [OF ppos] by simp
    have xhpos: "0 \<le> xh"
    proof -
      have "p * u \<le> p" using ppos by (simp add: u_def)
      then show ?thesis using e1 ppos by linarith
    qed
    define t :: rat where "t = 1 / of_int Wi"
    have t: "4 * u \<le> t"
    proof -
      have "(of_int Wi :: rat) \<le> of_int (2 ^ 51)"
        using W unfolding Wi_def by (simp only: of_int_le_iff)
      then have "(of_int Wi :: rat) \<le> 2 ^ 51" by simp
      then have "1 / (2 ^ 51 :: rat) \<le> 1 / of_int Wi"
        using Wpos by (intro divide_left_mono) simp_all
      then show ?thesis by (simp add: t_def u_def)
    qed
    have qt: "q \<le> 1 - t"
    proof -
      have "(of_int m :: rat) \<le> of_int (Wi - 1)"
        using m unfolding Wi_def by (simp only: of_int_le_iff)
      then have "of_int m / of_int Wi \<le> (of_int (Wi - 1) :: rat) / of_int Wi"
        using Wpos by (intro divide_right_mono) simp_all
      also have "\<dots> = 1 - t"
        using Wpos by (simp add: t_def field_simps)
      finally show ?thesis by (simp add: q_def)
    qed
    have u: "0 < u" "(1 + u) * (1 + u) \<le> 1 + 3 * u"
      by (simp_all add: u_def)
    have "r \<le> q * (1 + u)"
      using rq by (simp add: algebra_simps; linarith)
    then have "p \<le> of_int H * (q * (1 + u))"
      using Hpos by (simp add: p_def mult_left_mono)
    moreover have "xh \<le> p * (1 + u)"
      using e1 by (simp add: algebra_simps; linarith)
    ultimately have "xh \<le> of_int H * (q * (1 + u)) * (1 + u)"
      using u(1) by (meson add_pos_pos less_eq_rat_def mult_right_mono order_trans zero_less_one)
    also have "\<dots> = of_int H * (q * ((1 + u) * (1 + u)))"
      by (simp add: mult.assoc)
    also have "\<dots> \<le> of_int H * ((1 - t) * (1 + 3 * u))"
    proof -
      have "q * ((1 + u) * (1 + u)) \<le> (1 - t) * (1 + 3 * u)"
        using qt u q by (intro mult_mono) simp_all
      then show ?thesis using Hpos by (simp add: mult_left_mono)
    qed
    also have "\<dots> \<le> of_int H * 1"
    proof -
      have "0 \<le> t * u" using t u(1) by simp
      moreover have "(1 - t) * (1 + 3 * u) = 1 + 3 * u - t - 3 * (t * u)"
        by (simp add: algebra_simps)
      ultimately have "(1 - t) * (1 + 3 * u) \<le> 1"
        using t u(1) by linarith
      then show ?thesis using Hpos by (simp add: mult_left_mono)
    qed
    finally have "xh \<le> of_int H" by simp
    then have "\<lfloor>xh\<rfloor> \<le> H" by (simp add: floor_le_iff)
    moreover have "0 \<le> \<lfloor>xh\<rfloor>" using xhpos by simp
    moreover have "py_int xh = \<lfloor>xh\<rfloor>" using xhpos by (simp add: py_int_def)
    ultimately show ?thesis using ns by (simp add: H_def)
  qed
qed

lemma floor_quotient_within_one:
  fixes N W k :: int
  assumes W: "0 < W"
    and k: "k = N div W \<or> (W dvd N \<and> k = N div W - 1)"
  shows "\<bar>of_int k - of_int N / of_int W\<bar> \<le> (1::rat)"
proof -
  have f: "\<lfloor>(of_int N :: rat) / of_int W\<rfloor> = N div W"
    by (simp add: floor_divide_of_int_eq)
  have lo: "of_int (N div W) \<le> (of_int N :: rat) / of_int W"
    using floor_correct [of "(of_int N :: rat) / of_int W"] f by simp
  have hi: "(of_int N :: rat) / of_int W < of_int (N div W) + 1"
    using floor_correct [of "(of_int N :: rat) / of_int W"] f by simp
  from k show ?thesis
  proof
    assume "k = N div W"
    then show ?thesis using lo hi by simp
  next
    assume a: "W dvd N \<and> k = N div W - 1"
    then have "N = N div W * W" by simp
    then have "(of_int N :: rat) = of_int (N div W) * of_int W"
      by (metis of_int_mult)
    then have "(of_int N :: rat) / of_int W = of_int (N div W)"
      using W by simp
    then show ?thesis using a by simp
  qed
qed

lemma new_size_cong:
  "width a = width b \<Longrightarrow> height a = height b \<Longrightarrow> new_size m a = new_size m b"
  by (simp add: new_size_def split: sum.splits)

lemma resize_stage_Some:
  "resize_stage L (Some m) img =
     (if m \<noteq> 0 \<and> m < width img
      then (case new_size m img of Inl e \<Rightarrow> Inl e | Inr sz \<Rightarrow> pil_resize L img sz LANCZOS)
      else Inr img)"
  by (simp add: resize_stage_def)

lemma resize_stage_le:
  assumes c: "resize_contract L" and m: "\<forall>m. mw = Some m \<longrightarrow> 1 \<le> m"
    and b: "0 \<le> height img" "width img < 2 ^ 31" "height img < 2 ^ 31"
    and r: "resize_stage L mw img = Inr img'"
  shows "width img' \<le> width img \<and> height img' \<le> height img"
proof (cases mw)
  case None
  then show ?thesis using r by (simp add: resize_stage_def)
next
  case (Some m)
  show ?thesis
  proof (cases "m < width img")
    case False
    then show ?thesis using r Some by (simp add: resize_stage_Some)
  next
    case True
    have m1: "1 \<le> m" using m Some by simp
    have "width img \<le> 2 ^ 51" "height img < 2 ^ 53"
      using b by simp_all
    from new_size_le [OF m1 True this(1) b(1) this(2)]
    obtain k where k: "new_size m img = Inr (m, k)" "k \<le> height img" by blast
    then have "pil_resize L img (m, k) LANCZOS = Inr img'"
      using r Some True m1 by (simp add: resize_stage_Some)
    then have "width img' = m" "height img' = k"
      using c by (auto simp: resize_contract_def)
    then show ?thesis using k True by simp
  qed
qed

section \<open>The format selector\<close>

text \<open>
  C7: the format selector is total and deterministic. For every colour mode and every
  requested format it returns one of the two pairs, WEBP with \<open>.webp\<close> or JPEG with
  \<open>.jpg\<close>, and rejects nothing; a requested format that is not one of the supported
  outputs (the source compares the upper-cased name) gives WEBP with \<open>.webp\<close>; equal
  inputs give equal outputs.
\<close>

theorem choose_output_format_total_deterministic:
  "(choose_output_format m w = (''WEBP'', ''.webp'') \<or>
    choose_output_format m w = (''JPEG'', ''.jpg'')) \<and>
   (upper w \<notin> SUPPORTED_OUTPUTS \<longrightarrow> choose_output_format m w = (''WEBP'', ''.webp'')) \<and>
   (m = m' \<and> w = w' \<longrightarrow> choose_output_format m w = choose_output_format m' w')"
  by (simp add: choose_output_format_def)

theorem choose_output_format_total_deterministic_witness:
  "upper ''PNG'' \<notin> SUPPORTED_OUTPUTS \<and>
   choose_output_format ''RGB'' ''PNG'' = (''WEBP'', ''.webp'') \<and>
   choose_output_format ''RGB'' ''PNG'' = choose_output_format ''RGB'' ''PNG''"
proof -
  have h: "upper ''PNG'' \<notin> SUPPORTED_OUTPUTS"
    by code_simp
  show ?thesis
    using h choose_output_format_total_deterministic [of "''RGB''" "''PNG''" "''RGB''" "''PNG''"]
    by simp
qed

text \<open>
  C2: for a source colour mode that may carry transparency (RGBA, LA or palette) and a
  request for JPEG, the selector answers WEBP; and a call of \<open>compress_image\<close> on a
  file that decodes to such a mode, if it returns, returns the content type
  \<open>image/webp\<close> with the extension \<open>.webp\<close>, never \<open>image/jpeg\<close>. The second part
  rests on the library keeping the mode through orientation and resizing and converting
  to the mode asked for.
\<close>

theorem alpha_source_jpeg_request_gives_webp:
  assumes m: "m = ''RGBA'' \<or> m = ''LA'' \<or> m = ''P''" and want: "upper want = ''JPEG''"
  shows "choose_output_format m want = (''WEBP'', ''.webp'') \<and>
         (transpose_contract L \<and> convert_contract L \<and> resize_contract L \<and>
          pil_open L f = Inr img0 \<and> mode img0 = m \<and>
          compress_image L f mw q want s = Inr (data, ct, ext)
          \<longrightarrow> ct = ''image/webp'' \<and> ext = ''.webp'')"
proof (intro conjI impI)
  show "choose_output_format m want = (''WEBP'', ''.webp'')"
    using m want by (auto simp: choose_output_format_def)
next
  assume a: "transpose_contract L \<and> convert_contract L \<and> resize_contract L \<and>
          pil_open L f = Inr img0 \<and> mode img0 = m \<and>
          compress_image L f mw q want s = Inr (data, ct, ext)"
  then obtain img fmt where p: "prepare L mw want s img0 = Inr (img, fmt, ext)"
      and ct: "ct = (if fmt = ''WEBP'' then ''image/webp'' else ''image/jpeg'')"
    by (auto simp: compress_image_Inr)
  from p obtain img1 img2 img3 where
      t: "pil_exif_transpose L img0 = Inr img1" and
      pal: "palette_stage L img1 = Inr img2" and
      rs: "resize_stage L mw img2 = Inr img3" and
      ch: "choose_output_format (mode img3) want = (fmt, ext)"
    by (auto simp: prepare_Inr)
  have "mode img1 = m"
    using a t by (auto simp: transpose_contract_def)
  then have "mode img2 = ''RGBA'' \<or> mode img2 = ''LA''"
    using palette_stage_mode [OF _ pal] a m by auto
  then have "mode img3 = ''RGBA'' \<or> mode img3 = ''LA''"
    using resize_stage_mode [OF _ rs] a by simp
  then have "(fmt, ext) = (''WEBP'', ''.webp'')"
    using ch want by (auto simp: choose_output_format_def)
  then show "ct = ''image/webp''" and "ext = ''.webp''"
    using ct by simp_all
qed

theorem alpha_source_jpeg_request_gives_webp_witness:
  "upper ''JPEG'' = ''JPEG'' \<and>
   choose_output_format ''RGBA'' ''JPEG'' = (''WEBP'', ''.webp'') \<and>
   compress_image mini_pil rgba_file (Some 3) 75 ''JPEG'' True
     = Inr (''WEBPx'', ''image/webp'', ''.webp'')"
proof -
  have c: "compress_image mini_pil rgba_file (Some 3) 75 ''JPEG'' True
     = Inr (''WEBPx'', ''image/webp'', ''.webp'')"
    by code_simp
  have o: "pil_open mini_pil rgba_file = Inr rgba_4x5" "mode rgba_4x5 = ''RGBA''"
    by code_simp+
  show ?thesis
    using alpha_source_jpeg_request_gives_webp [of "''RGBA''" "''JPEG''" mini_pil rgba_file
        rgba_4x5
        "Some 3" 75 True "''WEBPx''" "''image/webp''" "''.webp''"]
      upper_JPEG c o mini_pil_contracts
    by simp
qed

section \<open>Validation and failure\<close>

text \<open>
  C3: a call with \<open>quality\<close> outside 1 to 100, or with a \<open>max_width\<close> that is present and
  below 1, fails with the validation error (\<open>ValueError\<close> in the source) and nothing is
  decoded: the error is the same for every library, every file and every other option, so
  it does not depend on what opening the file would do, not even on whether it would
  fail.
\<close>

theorem invalid_options_rejected_before_open:
  assumes "quality < 1 \<or> quality > 100 \<or> (\<exists>m. max_width = Some m \<and> m < 1)"
  shows "\<exists>msg. \<forall>L file_obj output_format strip_metadata.
           compress_image L file_obj max_width quality output_format strip_metadata
             = Inl (ValueError msg)"
proof -
  have "\<exists>msg. validate max_width quality = Some (ValueError msg)"
    using assms by (auto simp: validate_def)
  then obtain msg where "validate max_width quality = Some (ValueError msg)" ..
  then have "\<forall>L file_obj output_format strip_metadata.
           compress_image L file_obj max_width quality output_format strip_metadata
             = Inl (ValueError msg)"
    by (simp add: compress_image_def)
  then show ?thesis ..
qed

theorem invalid_options_rejected_before_open_witness:
  "(0::int) < 1 \<and>
   (\<exists>msg. \<forall>L file_obj output_format strip_metadata.
      compress_image L file_obj (Some 800) 0 output_format strip_metadata
        = Inl (ValueError msg))"
  using invalid_options_rejected_before_open [of 0 "Some 800"] by simp


text \<open>
  C4: a call that returns gives one of exactly two pairs: the extension \<open>.webp\<close> with the
  content type \<open>image/webp\<close>, or \<open>.jpg\<close> with \<open>image/jpeg\<close>.
\<close>

theorem extension_matches_content_type:
  assumes "compress_image L file_obj max_width quality output_format strip_metadata
             = Inr (data, content_type, ext)"
  shows "(ext = ''.webp'' \<and> content_type = ''image/webp'') \<or>
         (ext = ''.jpg'' \<and> content_type = ''image/jpeg'')"
proof -
  obtain img0 img fmt where
      p: "prepare L max_width output_format strip_metadata img0 = Inr (img, fmt, ext)" and
      ct: "content_type = (if fmt = ''WEBP'' then ''image/webp'' else ''image/jpeg'')"
    using assms by (auto simp: compress_image_Inr)
  from p have "\<exists>img3::image. choose_output_format (mode img3) output_format = (fmt, ext)"
    unfolding prepare_Inr by blast
  then obtain img3 :: image where "choose_output_format (mode img3) output_format = (fmt, ext)" ..
  then have "(fmt, ext) = (''WEBP'', ''.webp'') \<or> (fmt, ext) = (''JPEG'', ''.jpg'')"
    using choose_output_format_cases [of "mode img3" output_format] by simp
  then show ?thesis using ct by auto
qed

theorem extension_matches_content_type_witness:
  "compress_image mini_pil rgb_file (Some 3) 75 ''JPEG'' True
     = Inr (''JPEGx'', ''image/jpeg'', ''.jpg'') \<and>
   ((''.jpg'' = ''.webp'' \<and> ''image/jpeg'' = ''image/webp'') \<or>
    (''.jpg'' = ''.jpg'' \<and> ''image/jpeg'' = ''image/jpeg''))"
proof -
  have c: "compress_image mini_pil rgb_file (Some 3) 75 ''JPEG'' True
     = Inr (''JPEGx'', ''image/jpeg'', ''.jpg'')"
    by code_simp
  show ?thesis
    using c extension_matches_content_type [OF c] by simp
qed

text \<open>
  C8: with valid options, a byte stream that the library cannot open makes the call fail
  with the \<open>IOError\<close> of line 54, which carries the library's diagnostic, and a stream
  that opens but fails in a later step (a truncated file is only read when its pixels are
  needed) makes it fail with the \<open>IOError\<close> of line 114, again with the diagnostic. In
  both cases the result is the error alone: no data, content type or extension is
  returned.
\<close>

theorem unparseable_image_fails_with_diagnostic:
  assumes "validate max_width quality = None"
  shows "(pil_open L file_obj = Inl diag \<longrightarrow>
            compress_image L file_obj max_width quality output_format strip_metadata
              = Inl (IOError (''Cannot open image file: '' @ diag))) \<and>
         (pil_open L file_obj = Inr img \<and>
          encode L max_width quality output_format strip_metadata img = Inl diag \<longrightarrow>
            compress_image L file_obj max_width quality output_format strip_metadata
              = Inl (IOError (''Image compression failed: '' @ diag)))"
  using assms by (simp add: compress_image_def)

theorem unparseable_image_fails_with_diagnostic_witness:
  "validate (Some 800) 75 = None \<and>
   pil_open mini_pil ''GIF'' = Inl ''cannot identify image file'' \<and>
   compress_image mini_pil ''GIF'' (Some 800) 75 ''WEBP'' True
     = Inl (IOError ''Cannot open image file: cannot identify image file'')"
proof -
  have v: "validate (Some 800) 75 = None"
    by (simp add: validate_def)
  have o: "pil_open mini_pil ''GIF'' = Inl ''cannot identify image file''"
    by code_simp
  show ?thesis
    using v o unparseable_image_fails_with_diagnostic
      [OF v, of mini_pil "''GIF''" "''cannot identify image file''" "''WEBP''" True]
    by simp
qed

section \<open>The alpha channel\<close>

lemma prepare_ignores_compositing:
  "prepare (L\<lparr>pil_new := n, pil_split := sp, pil_paste := pa\<rparr>) mw want s img0
     = prepare L mw want s img0"
proof -
  let ?L = "L\<lparr>pil_new := n, pil_split := sp, pil_paste := pa\<rparr>"
  have a: "alpha_stage ?L fmt img = alpha_stage L fmt img"
    if "choose_output_format (mode img) want = (fmt, ext)" for fmt ext img
    using that by (simp add: alpha_stage_chosen)
  have p: "palette_stage ?L img = palette_stage L img" for img
    by (simp add: palette_stage_def)
  have r: "resize_stage ?L mw img = resize_stage L mw img" for img
    by (simp add: resize_stage_def split: option.splits sum.splits)
  show ?thesis
    by (auto simp: prepare_def p r a split: sum.splits prod.splits)
qed

text \<open>
  C10: the branch that composites over a white background is never taken. Whenever the
  selector answers JPEG the mode it was given is neither RGBA nor LA, and the compositing
  step sees that same mode; so that step only ever converts to RGB or does nothing, and
  the result of \<open>compress_image\<close> does not depend on \<open>Image.new\<close>, \<open>split\<close> or
  \<open>paste\<close>, the three library operations that only this branch calls.
\<close>

theorem compositing_branch_unreachable:
  "(fst (choose_output_format (mode img) want) = ''JPEG''
      \<longrightarrow> mode img \<noteq> ''RGBA'' \<and> mode img \<noteq> ''LA'') \<and>
   alpha_stage L (fst (choose_output_format (mode img) want)) img
     = (if fst (choose_output_format (mode img) want) = ''JPEG'' \<and> mode img \<noteq> ''RGB''
        then pil_convert L img ''RGB'' else Inr img) \<and>
   compress_image (L\<lparr>pil_new := n, pil_split := sp, pil_paste := pa\<rparr>)
       file_obj max_width quality want strip_metadata
     = compress_image L file_obj max_width quality want strip_metadata"
proof (intro conjI impI)
  assume "fst (choose_output_format (mode img) want) = ''JPEG''"
  then have "choose_output_format (mode img) want
      = (''JPEG'', snd (choose_output_format (mode img) want))"
    by (metis prod.collapse)
  then show "mode img \<noteq> ''RGBA''" and "mode img \<noteq> ''LA''"
    by (auto dest: choose_output_format_JPEG)
next
  show "alpha_stage L (fst (choose_output_format (mode img) want)) img
     = (if fst (choose_output_format (mode img) want) = ''JPEG'' \<and> mode img \<noteq> ''RGB''
        then pil_convert L img ''RGB'' else Inr img)"
    by (rule alpha_stage_chosen [of img want _ "snd (choose_output_format (mode img) want)"]) simp
next
  show "compress_image (L\<lparr>pil_new := n, pil_split := sp, pil_paste := pa\<rparr>)
       file_obj max_width quality want strip_metadata
     = compress_image L file_obj max_width quality want strip_metadata"
    by (simp add: compress_image_def encode_def prepare_ignores_compositing
        split: option.splits sum.splits prod.splits)
qed

theorem compositing_branch_unreachable_witness:
  "fst (choose_output_format (mode rgb_4x5) ''JPEG'') = ''JPEG'' \<and>
   mode rgb_4x5 \<noteq> ''RGBA'' \<and> mode rgb_4x5 \<noteq> ''LA'' \<and>
   compress_image (mini_pil\<lparr>pil_new := (\<lambda>m sz c. Inl ''never called''),
        pil_split := (\<lambda>img. Inl ''never called''),
        pil_paste := (\<lambda>bg img mask. Inl ''never called'')\<rparr>) rgba_file (Some 3) 75 ''JPEG'' True
     = compress_image mini_pil rgba_file (Some 3) 75 ''JPEG'' True"
proof -
  have h: "fst (choose_output_format (mode rgb_4x5) ''JPEG'') = ''JPEG''"
    by code_simp
  show ?thesis
    using h compositing_branch_unreachable [of rgb_4x5 "''JPEG''" mini_pil
        "\<lambda>m sz c. Inl ''never called''" "\<lambda>img. Inl ''never called''"
        "\<lambda>bg img mask. Inl ''never called''" rgba_file "Some 3" 75 True]
    by simp
qed

text \<open>
  C5: when the output format is JPEG the buffer handed to the encoder has no alpha
  channel: it is in mode RGB. The step before the encoder, given JPEG, turns a buffer in
  mode RGBA or LA into a new white (255, 255, 255) RGB image of the same size onto which
  the buffer is pasted with its last band, the alpha channel, as mask, and converts any
  other buffer that is not RGB to RGB. This rests on the library returning the mode asked
  for from \<open>convert\<close> and \<open>Image.new\<close>, and on \<open>paste\<close> keeping the mode of the
  background.
\<close>

theorem jpeg_buffer_is_opaque_rgb:
  assumes c: "convert_contract L" "new_contract L" "paste_contract L"
  shows "(alpha_stage L ''JPEG'' img = Inr img' \<longrightarrow> mode img' = ''RGB'') \<and>
         ((mode img = ''RGBA'' \<or> mode img = ''LA'') \<and> alpha_stage L ''JPEG'' img = Inr img' \<longrightarrow>
            (\<exists>bg bands. pil_new L ''RGB'' (width img, height img) (255, 255, 255) = Inr bg \<and>
               pil_split L img = Inr bands \<and> bands \<noteq> [] \<and>
               pil_paste L bg img (last bands) = Inr img')) \<and>
         (mode img \<noteq> ''RGBA'' \<and> mode img \<noteq> ''LA'' \<and> mode img \<noteq> ''RGB'' \<longrightarrow>
            alpha_stage L ''JPEG'' img = pil_convert L img ''RGB'') \<and>
         (prepare L max_width want s img0 = Inr (buf, ''JPEG'', ext) \<longrightarrow> mode buf = ''RGB'') \<and>
         (compress_image L file_obj max_width quality want s = Inr (data, ''image/jpeg'', ext) \<longrightarrow>
            (\<exists>b. mode b = ''RGB'' \<and>
               pil_save L b ''JPEG'' (save_kwargs ''JPEG'' quality) = Inr data))"
proof -
  have stage: "mode y = ''RGB''" if "alpha_stage L ''JPEG'' x = Inr y" for x y
    using that c
    by (auto simp: alpha_stage_def convert_contract_def new_contract_def paste_contract_def
        split: if_splits sum.splits)
  have comp: "\<exists>bg bands. pil_new L ''RGB'' (width img, height img) (255, 255, 255) = Inr bg \<and>
               pil_split L img = Inr bands \<and> bands \<noteq> [] \<and>
               pil_paste L bg img (last bands) = Inr img'"
    if "mode img = ''RGBA'' \<or> mode img = ''LA''" "alpha_stage L ''JPEG'' img = Inr img'"
    using that by (auto simp: alpha_stage_def split: sum.splits if_splits)
  have prep: "mode b = ''RGB''" if "prepare L mw want s i0 = Inr (b, ''JPEG'', e)" for b e mw i0
  proof -
    from that have "\<exists>x y. alpha_stage L ''JPEG'' x = Inr y \<and> b = strip_stage s y"
      unfolding prepare_Inr by blast
    then show ?thesis using stage by auto
  qed
  have comp_img: "\<exists>b. mode b = ''RGB'' \<and>
               pil_save L b ''JPEG'' (save_kwargs ''JPEG'' quality) = Inr data"
    if "compress_image L file_obj max_width quality want s = Inr (data, ''image/jpeg'', ext)"
  proof -
    from that obtain i0 b fmt where
        p: "prepare L max_width want s i0 = Inr (b, fmt, ext)" and
        sv: "pil_save L b fmt (save_kwargs fmt quality) = Inr data" and
        ct: "''image/jpeg'' = (if fmt = ''WEBP'' then ''image/webp'' else ''image/jpeg'')"
      unfolding compress_image_Inr by blast
    from p have "\<exists>x::image. choose_output_format (mode x) want = (fmt, ext)"
      unfolding prepare_Inr by blast
    then have "fmt = ''WEBP'' \<or> fmt = ''JPEG''"
      using choose_output_format_cases by (metis prod.inject)
    then have f: "fmt = ''JPEG''" using ct by auto
    have "mode b = ''RGB''"
      using p f prep by blast
    then show ?thesis using sv f by blast
  qed
  have conv: "alpha_stage L ''JPEG'' img = pil_convert L img ''RGB''"
    if "mode img \<noteq> ''RGBA'' \<and> mode img \<noteq> ''LA'' \<and> mode img \<noteq> ''RGB''"
    using that by (simp add: alpha_stage_def)
  show ?thesis
    using stage comp prep comp_img conv by blast
qed

theorem jpeg_buffer_is_opaque_rgb_witness:
  "alpha_stage mini_pil ''JPEG'' rgba_4x5
     = Inr \<lparr>width = 4, height = 5, mode = ''RGB'', info = [], pixels = []\<rparr> \<and>
   mode \<lparr>width = 4, height = 5, mode = ''RGB'', info = [], pixels = []\<rparr> = ''RGB'' \<and>
   prepare mini_pil (Some 3) ''JPEG'' True rgb_4x5
     = Inr (\<lparr>width = 3, height = 3, mode = ''RGB'', info = [], pixels = ''x''\<rparr>,
            ''JPEG'', ''.jpg'')"
proof -
  have a: "alpha_stage mini_pil ''JPEG'' rgba_4x5
     = Inr \<lparr>width = 4, height = 5, mode = ''RGB'', info = [], pixels = []\<rparr>"
    by code_simp
  have p: "prepare mini_pil (Some 3) ''JPEG'' True rgb_4x5
     = Inr (\<lparr>width = 3, height = 3, mode = ''RGB'', info = [], pixels = ''x''\<rparr>,
            ''JPEG'', ''.jpg'')"
    by code_simp
  show ?thesis
    using a p jpeg_buffer_is_opaque_rgb [OF mini_pil_contracts(1,4,5), of rgba_4x5
        "\<lparr>width = 4, height = 5, mode = ''RGB'', info = [], pixels = []\<rparr>"]
    by simp
qed

section \<open>Resizing\<close>

text \<open>
  C6: without \<open>max_width\<close>, and for an image whose width (after the orientation
  transform) is at most \<open>max_width\<close>, the resize step returns the image itself and the
  buffer handed to the encoder has exactly the dimensions of the oriented image. In every
  case, for a valid \<open>max_width\<close> and image sides below \<open>2 ^ 31\<close>, neither dimension
  grows. This rests on the library keeping the size in \<open>convert\<close> and returning the
  requested size from \<open>resize\<close>.
\<close>

theorem small_images_keep_dimensions:
  assumes c: "convert_contract L" "resize_contract L"
    and t: "pil_exif_transpose L img0 = Inr img1"
    and p: "prepare L max_width want s img0 = Inr (buf, fmt, ext)"
  shows "(max_width = None \<or> (\<exists>m. max_width = Some m \<and> width img1 \<le> m) \<longrightarrow>
            width buf = width img1 \<and> height buf = height img1) \<and>
         ((\<forall>m. max_width = Some m \<longrightarrow> 1 \<le> m) \<and>
          0 \<le> height img1 \<and> width img1 < 2 ^ 31 \<and> height img1 < 2 ^ 31 \<longrightarrow>
            width buf \<le> width img1 \<and> height buf \<le> height img1) \<and>
         resize_stage L None img = Inr img \<and>
         (width img \<le> m \<longrightarrow> resize_stage L (Some m) img = Inr img)"
proof -
  from p t obtain img2 img3 img4 where
      pal: "palette_stage L img1 = Inr img2" and
      rs: "resize_stage L max_width img2 = Inr img3" and
      ch: "choose_output_format (mode img3) want = (fmt, ext)" and
      al: "alpha_stage L fmt img3 = Inr img4" and
      buf: "buf = strip_stage s img4"
    unfolding prepare_Inr by auto
  have s2: "width img2 = width img1" "height img2 = height img1"
    using palette_stage_size [OF c(1) pal] by simp_all
  have s4: "width buf = width img3" "height buf = height img3"
    using alpha_stage_chosen_size [OF c(1) ch al] buf by simp_all
  have same: "width buf = width img1 \<and> height buf = height img1"
    if "max_width = None \<or> (\<exists>m. max_width = Some m \<and> width img1 \<le> m)"
  proof -
    have "img3 = img2"
      using that rs s2 by (auto simp: resize_stage_def)
    then show ?thesis using s2 s4 by simp
  qed
  have le: "width buf \<le> width img1 \<and> height buf \<le> height img1"
    if "(\<forall>m. max_width = Some m \<longrightarrow> 1 \<le> m) \<and>
          0 \<le> height img1 \<and> width img1 < 2 ^ 31 \<and> height img1 < 2 ^ 31"
    using resize_stage_le [OF c(2) _ _ _ _ rs] that s2 s4 by simp
  have "resize_stage L None img = Inr img"
    by (simp add: resize_stage_def)
  moreover have "width img \<le> m \<longrightarrow> resize_stage L (Some m) img = Inr img"
    by (simp add: resize_stage_Some)
  ultimately show ?thesis using same le by blast
qed

theorem small_images_keep_dimensions_witness:
  "pil_exif_transpose mini_pil rgb_4x5 = Inr rgb_4x5 \<and>
   prepare mini_pil (Some 800) ''JPEG'' True rgb_4x5 = Inr (rgb_4x5, ''JPEG'', ''.jpg'') \<and>
   width rgb_4x5 \<le> 800 \<and>
   resize_stage mini_pil (Some 800) rgb_4x5 = Inr rgb_4x5"
proof -
  have t: "pil_exif_transpose mini_pil rgb_4x5 = Inr rgb_4x5"
    by code_simp
  have p: "prepare mini_pil (Some 800) ''JPEG'' True rgb_4x5 = Inr (rgb_4x5, ''JPEG'', ''.jpg'')"
    by code_simp
  have w: "width rgb_4x5 \<le> 800"
    by code_simp
  show ?thesis
    using t p w small_images_keep_dimensions [OF mini_pil_contracts(1,2) t p, of rgb_4x5 800]
    by simp
qed

text \<open>
  C1, as amended: for an image whose width \<open>W\<close> (after the orientation transform) exceeds
  \<open>max_width\<close>, with \<open>max_width\<close> at least 1 and \<open>height * max_width < 2 ^ 51\<close>,
  \<open>compress_image\<close> asks the library for a Lanczos resize to the width \<open>max_width\<close> and
  the height \<^verbatim>\<open>int(height * (max_width / float(W)))\<close>, the double-precision product
  truncated toward zero, not rounded to the nearest integer. That height differs from
  \<open>height * max_width / W\<close> by at most one pixel, and it is \<open>height * max_width div W\<close>
  whenever \<open>W\<close> does not divide \<open>height * max_width\<close>. Whenever the call returns, the
  buffer handed to the encoder has exactly that width and height. Nothing is said of
  whether the library accepts the requested size.
\<close>

theorem wide_images_resized_to_max_width:
  assumes c: "convert_contract L" "resize_contract L"
    and m: "1 \<le> m" "m < width img1"
    and b: "width img1 < 2 ^ 53" "0 \<le> height img1" "height img1 * m < 2 ^ 51"
  shows "\<exists>k. new_size m img1 = Inr (m, k) \<and>
           (\<not> width img1 dvd height img1 * m \<longrightarrow> k = (height img1 * m) div width img1) \<and>
           \<bar>of_int k - of_int (height img1 * m) / of_int (width img1)\<bar> \<le> (1::rat) \<and>
           (\<forall>img2. palette_stage L img1 = Inr img2 \<longrightarrow>
              resize_stage L (Some m) img2 = pil_resize L img2 (m, k) LANCZOS) \<and>
           (\<forall>img0 want s buf fmt ext.
              pil_exif_transpose L img0 = Inr img1 \<and>
              prepare L (Some m) want s img0 = Inr (buf, fmt, ext) \<longrightarrow>
                width buf = m \<and> height buf = k) \<and>
           (\<forall>file_obj img0 quality want s data ct ext.
              pil_open L file_obj = Inr img0 \<and> pil_exif_transpose L img0 = Inr img1 \<and>
              compress_image L file_obj (Some m) quality want s = Inr (data, ct, ext) \<longrightarrow>
                (\<exists>buf fmt. width buf = m \<and> height buf = k \<and>
                   pil_save L buf fmt (save_kwargs fmt quality) = Inr data))"
proof -
  from new_size_value [OF m b]
  obtain k where ns: "new_size m img1 = Inr (m, k)"
      and k: "k = (height img1 * m) div width img1 \<or>
              (width img1 dvd height img1 * m \<and> k = (height img1 * m) div width img1 - 1)"
    by blast
  have Wpos: "0 < width img1" using m by simp
  have exact: "\<not> width img1 dvd height img1 * m \<longrightarrow> k = (height img1 * m) div width img1"
    using k by blast
  have near: "\<bar>of_int k - of_int (height img1 * m) / of_int (width img1)\<bar> \<le> (1::rat)"
    by (rule floor_quotient_within_one [OF Wpos k])
  have req: "resize_stage L (Some m) img2 = pil_resize L img2 (m, k) LANCZOS"
    if pal: "palette_stage L img1 = Inr img2" for img2
  proof -
    have s2: "width img2 = width img1" "height img2 = height img1"
      using palette_stage_size [OF c(1) pal] by simp_all
    have "new_size m img2 = Inr (m, k)"
      using ns new_size_cong [OF s2] by simp
    then show ?thesis
      using m s2 by (simp add: resize_stage_Some)
  qed
  have out: "width buf = m \<and> height buf = k"
    if t: "pil_exif_transpose L img0 = Inr img1"
      and p: "prepare L (Some m) want s img0 = Inr (buf, fmt, ext)"
    for img0 want s buf fmt ext
  proof -
    from p t obtain img2 img3 img4 where
        pal: "palette_stage L img1 = Inr img2" and
        rs: "resize_stage L (Some m) img2 = Inr img3" and
        ch: "choose_output_format (mode img3) want = (fmt, ext)" and
        al: "alpha_stage L fmt img3 = Inr img4" and
        buf: "buf = strip_stage s img4"
      unfolding prepare_Inr by auto
    have s4: "width buf = width img3" "height buf = height img3"
      using alpha_stage_chosen_size [OF c(1) ch al] buf by simp_all
    have "pil_resize L img2 (m, k) LANCZOS = Inr img3"
      using rs req [OF pal] by simp
    then have "width img3 = m" "height img3 = k"
      using c(2) by (auto simp: resize_contract_def)
    then show ?thesis using s4 by simp
  qed
  have call: "\<exists>buf fmt. width buf = m \<and> height buf = k \<and>
                   pil_save L buf fmt (save_kwargs fmt quality) = Inr data"
    if o: "pil_open L file_obj = Inr img0" and t: "pil_exif_transpose L img0 = Inr img1"
      and r: "compress_image L file_obj (Some m) quality want s = Inr (data, ct, ext)"
    for file_obj img0 quality want s data ct ext
  proof -
    from r o obtain buf fmt where
        p: "prepare L (Some m) want s img0 = Inr (buf, fmt, ext)" and
        sv: "pil_save L buf fmt (save_kwargs fmt quality) = Inr data"
      unfolding compress_image_Inr by auto
    show ?thesis
      using out [OF t p] sv by blast
  qed
  have req': "\<forall>img2. palette_stage L img1 = Inr img2 \<longrightarrow>
              resize_stage L (Some m) img2 = pil_resize L img2 (m, k) LANCZOS"
    using req by blast
  have out': "\<forall>img0 want s buf fmt ext.
              pil_exif_transpose L img0 = Inr img1 \<and>
              prepare L (Some m) want s img0 = Inr (buf, fmt, ext) \<longrightarrow>
                width buf = m \<and> height buf = k"
    using out by blast
  have call': "\<forall>file_obj img0 quality want s data ct ext.
              pil_open L file_obj = Inr img0 \<and> pil_exif_transpose L img0 = Inr img1 \<and>
              compress_image L file_obj (Some m) quality want s = Inr (data, ct, ext) \<longrightarrow>
                (\<exists>buf fmt. width buf = m \<and> height buf = k \<and>
                   pil_save L buf fmt (save_kwargs fmt quality) = Inr data)"
  proof (intro allI impI)
    fix file_obj img0 quality want s data ct ext
    assume "pil_open L file_obj = Inr img0 \<and> pil_exif_transpose L img0 = Inr img1 \<and>
              compress_image L file_obj (Some m) quality want s = Inr (data, ct, ext)"
    then show "\<exists>buf fmt. width buf = m \<and> height buf = k \<and>
                   pil_save L buf fmt (save_kwargs fmt quality) = Inr data"
      using call [of file_obj img0 quality want s data ct ext] by simp
  qed
  show ?thesis
  proof (rule exI [of _ k])
    show "new_size m img1 = Inr (m, k) \<and>
           (\<not> width img1 dvd height img1 * m \<longrightarrow> k = (height img1 * m) div width img1) \<and>
           \<bar>of_int k - of_int (height img1 * m) / of_int (width img1)\<bar> \<le> (1::rat) \<and>
           (\<forall>img2. palette_stage L img1 = Inr img2 \<longrightarrow>
              resize_stage L (Some m) img2 = pil_resize L img2 (m, k) LANCZOS) \<and>
           (\<forall>img0 want s buf fmt ext.
              pil_exif_transpose L img0 = Inr img1 \<and>
              prepare L (Some m) want s img0 = Inr (buf, fmt, ext) \<longrightarrow>
                width buf = m \<and> height buf = k) \<and>
           (\<forall>file_obj img0 quality want s data ct ext.
              pil_open L file_obj = Inr img0 \<and> pil_exif_transpose L img0 = Inr img1 \<and>
              compress_image L file_obj (Some m) quality want s = Inr (data, ct, ext) \<longrightarrow>
                (\<exists>buf fmt. width buf = m \<and> height buf = k \<and>
                   pil_save L buf fmt (save_kwargs fmt quality) = Inr data))"
      using ns exact near req' out' call' by (intro conjI)
  qed
qed

theorem wide_images_resized_to_max_width_witness:
  "(1::int) \<le> 3 \<and> 3 < width rgb_4x5 \<and> width rgb_4x5 < 2 ^ 53 \<and> 0 \<le> height rgb_4x5 \<and>
   height rgb_4x5 * 3 < 2 ^ 51 \<and>
   new_size 3 rgb_4x5 = Inr (3, 3) \<and>
   pil_exif_transpose mini_pil rgb_4x5 = Inr rgb_4x5 \<and>
   prepare mini_pil (Some 3) ''WEBP'' True rgb_4x5
     = Inr (\<lparr>width = 3, height = 3, mode = ''RGB'', info = [], pixels = ''x''\<rparr>,
            ''WEBP'', ''.webp'') \<and>
   width \<lparr>width = 3, height = 3, mode = ''RGB'', info = [], pixels = ''x''\<rparr> = 3 \<and>
   height \<lparr>width = 3, height = 3, mode = ''RGB'', info = [], pixels = ''x''\<rparr> = 3 \<and>
   (3::int) = (height rgb_4x5 * 3) div width rgb_4x5"
proof -
  have m: "(1::int) \<le> 3" "(3::int) < width rgb_4x5"
    by (simp_all add: rgb_4x5_def)
  have b: "width rgb_4x5 < 2 ^ 53" "0 \<le> height rgb_4x5" "height rgb_4x5 * 3 < 2 ^ 51"
    by (simp_all add: rgb_4x5_def)
  have n: "new_size 3 rgb_4x5 = Inr (3, 3)"
    by code_simp
  have t: "pil_exif_transpose mini_pil rgb_4x5 = Inr rgb_4x5"
    by code_simp
  have p: "prepare mini_pil (Some 3) ''WEBP'' True rgb_4x5
     = Inr (\<lparr>width = 3, height = 3, mode = ''RGB'', info = [], pixels = ''x''\<rparr>,
            ''WEBP'', ''.webp'')"
    by code_simp
  have d: "\<not> width rgb_4x5 dvd height rgb_4x5 * 3" "(height rgb_4x5 * 3) div width rgb_4x5 = 3"
    by (simp_all add: rgb_4x5_def)
  from wide_images_resized_to_max_width [OF mini_pil_contracts(1,2) m b]
  obtain k where k: "new_size 3 rgb_4x5 = Inr (3, k)"
      and e: "\<not> width rgb_4x5 dvd height rgb_4x5 * 3 \<longrightarrow>
                k = (height rgb_4x5 * 3) div width rgb_4x5"
      and o: "\<forall>img0 want s buf fmt ext.
                pil_exif_transpose mini_pil img0 = Inr rgb_4x5 \<and>
                prepare mini_pil (Some 3) want s img0 = Inr (buf, fmt, ext) \<longrightarrow>
                  width buf = 3 \<and> height buf = k"
    by (elim exE conjE) (rule that)
  have k3: "k = 3" using k n by simp
  have "width \<lparr>width = 3, height = 3, mode = ''RGB'', info = [], pixels = ''x''\<rparr> = 3 \<and>
        height \<lparr>width = 3, height = 3, mode = ''RGB'', info = [], pixels = ''x''\<rparr> = k"
    using o t p by blast
  then show ?thesis
    using m b n t p d k3 by simp
qed

text \<open>
  The claim as first stated, with the height rounded to the nearest integer, fails for a
  4 by 5 image and \<open>max_width = 3\<close>: \<open>5 * 3 / 4 = 3.75\<close> rounds to 4, and the source asks
  for height 3.
\<close>

theorem resized_height_is_rounded_counterexample:
  "new_size 3 rgb_4x5 = Inr (3, 3) \<and>
   prepare mini_pil (Some 3) ''WEBP'' True rgb_4x5
     = Inr (\<lparr>width = 3, height = 3, mode = ''RGB'', info = [], pixels = ''x''\<rparr>,
            ''WEBP'', ''.webp'') \<and>
   (3::int) \<noteq> round (of_int (height rgb_4x5) * 3 / of_int (width rgb_4x5) :: rat)"
proof (intro conjI)
  show "new_size 3 rgb_4x5 = Inr (3, 3)"
    by code_simp
  show "prepare mini_pil (Some 3) ''WEBP'' True rgb_4x5
     = Inr (\<lparr>width = 3, height = 3, mode = ''RGB'', info = [], pixels = ''x''\<rparr>,
            ''WEBP'', ''.webp'')"
    by code_simp
  have "round (of_int (height rgb_4x5) * 3 / of_int (width rgb_4x5) :: rat) = (4::int)"
    by code_simp
  then show "(3::int) \<noteq> round (of_int (height rgb_4x5) * 3 / of_int (width rgb_4x5) :: rat)"
    by simp
qed

section \<open>Cache purge\<close>

lemma purge_loop_verdicts:
  "fst (purge_loop post api key w urls succ fail) =
     \<lparr>success = succ @ map fst (filter snd (purge_verdicts post api key w urls)),
      failed = fail @ map fst (filter (\<lambda>v. \<not> snd v) (purge_verdicts post api key w urls))\<rparr>"
proof (induction urls arbitrary: w succ fail)
  case Nil
  then show ?case by simp
next
  case (Cons url urls)
  show ?case
  proof (cases "url = []")
    case True
    then show ?thesis using Cons.IH by simp
  next
    case False
    obtain r w' where pw: "post w api key url = (r, w')"
      by (cases "post w api key url")
    show ?thesis
      using False pw Cons.IH by (cases r) (simp_all add: request_ok_def)
  qed
qed

lemma purge_verdicts_urls:
  "map fst (purge_verdicts post api key w urls) = filter (\<lambda>u. u \<noteq> []) urls"
  by (induction urls arbitrary: w) simp_all

lemma mset_partition_fst:
  "mset (map fst (filter snd vs)) + mset (map fst (filter (\<lambda>v. \<not> snd v) vs)) = mset (map fst vs)"
  by (induction vs) simp_all

text \<open>
  C9: \<open>purge_cache\<close> reports per URL. With the pull zone and the API key configured,
  every entry of the list that is not the empty string gets one request of its own, in
  order, and is put in the success list when that request succeeds and in the failed list
  when it raises or is answered with an error status; the two lists together hold exactly
  those entries, so some can succeed while others fail. Without the configuration no
  request is made and every URL is reported as failed. A failed request never ends the
  call: every outcome of a request, an exception included, is a value here and leads to
  the next URL.
\<close>

theorem purge_cache_reports_each_url:
  fixes post :: "'w http_post" and cfg :: settings and w :: 'w and urls :: "string list"
  defines "res \<equiv> fst (purge_cache cfg post w urls)"
    and "vs \<equiv> purge_verdicts post (purge_api cfg) (setting_str (BUNNY_API_KEY cfg)) w urls"
  shows "(\<not> falsy (BUNNY_PULL_ZONE_ID cfg) \<and> \<not> falsy (BUNNY_API_KEY cfg) \<longrightarrow>
            map fst vs = filter (\<lambda>u. u \<noteq> []) urls \<and>
            success res = map fst (filter snd vs) \<and>
            failed res = map fst (filter (\<lambda>v. \<not> snd v) vs) \<and>
            mset (success res) + mset (failed res) = mset (filter (\<lambda>u. u \<noteq> []) urls)) \<and>
         (falsy (BUNNY_PULL_ZONE_ID cfg) \<or> falsy (BUNNY_API_KEY cfg) \<longrightarrow>
            success res = [] \<and> failed res = urls)"
proof (intro conjI impI)
  assume c: "\<not> falsy (BUNNY_PULL_ZONE_ID cfg) \<and> \<not> falsy (BUNNY_API_KEY cfg)"
  show u: "map fst vs = filter (\<lambda>u. u \<noteq> []) urls"
    by (simp add: vs_def purge_verdicts_urls)
  have r: "res = \<lparr>success = map fst (filter snd vs),
                  failed = map fst (filter (\<lambda>v. \<not> snd v) vs)\<rparr>"
  proof (cases "urls = []")
    case True
    then show ?thesis by (simp add: res_def vs_def purge_cache_def)
  next
    case False
    then show ?thesis
      using c by (simp add: res_def vs_def purge_cache_def purge_loop_verdicts)
  qed
  show "success res = map fst (filter snd vs)"
    and "failed res = map fst (filter (\<lambda>v. \<not> snd v) vs)"
    by (simp_all add: r)
  show "mset (success res) + mset (failed res) = mset (filter (\<lambda>u. u \<noteq> []) urls)"
    by (simp only: r purge_result.simps mset_partition_fst u)
next
  assume "falsy (BUNNY_PULL_ZONE_ID cfg) \<or> falsy (BUNNY_API_KEY cfg)"
  then show "success res = []" and "failed res = urls"
    by (auto simp: res_def purge_cache_def)
qed

theorem purge_cache_reports_each_url_witness:
  "\<not> falsy (BUNNY_PULL_ZONE_ID demo_settings) \<and> \<not> falsy (BUNNY_API_KEY demo_settings) \<and>
   success (fst (purge_cache demo_settings demo_post 0 [''a'', ''b'', ''c''])) = [''a''] \<and>
   failed (fst (purge_cache demo_settings demo_post 0 [''a'', ''b'', ''c''])) = [''b'', ''c'']"
proof -
  have c: "\<not> falsy (BUNNY_PULL_ZONE_ID demo_settings)" "\<not> falsy (BUNNY_API_KEY demo_settings)"
    by code_simp+
  have v: "purge_verdicts demo_post (purge_api demo_settings)
             (setting_str (BUNNY_API_KEY demo_settings)) 0 [''a'', ''b'', ''c'']
           = [(''a'', True), (''b'', False), (''c'', False)]"
    by code_simp
  show ?thesis
    using c purge_cache_reports_each_url
        [of demo_settings demo_post 0 "[''a'', ''b'', ''c'']", unfolded v]
    by simp
qed

end
